theory Spec2Isabelle
  imports Complex_Main
begin

section \<open>Numbers, arrays and errors\<close>

text \<open>
  The amplitudes of the program are JavaScript numbers. They are modelled as exact
  reals, with one extra value \<open>NaN\<close>: it is what a division of zero by zero gives, and
  what a read outside an array (\<open>undefined\<close>) becomes in every arithmetic operation and
  comparison that uses it. Rounding to 32-bit or 64-bit floats and the infinities are
  not modelled. Indices, sizes and loop counters are integers.
\<close>

datatype number = Num real | NaN

datatype error = TypeError | RangeError | TransformError

text \<open>\<open>a > b\<close> and \<open>a >= b\<close> of JavaScript: false as soon as one side is \<open>NaN\<close>.\<close>

fun js_gt :: "number \<Rightarrow> number \<Rightarrow> bool" where
  "js_gt (Num a) (Num b) = (b < a)"
| "js_gt _ _ = False"

fun js_ge :: "number \<Rightarrow> number \<Rightarrow> bool" where
  "js_ge (Num a) (Num b) = (b \<le> a)"
| "js_ge _ _ = False"

text \<open>
  \<open>xs[i]\<close> on an array of rows: \<open>None\<close> stands for \<open>undefined\<close>, which is what
  an index below zero or past the end reads. Reading a property of \<open>undefined\<close> throws
  a TypeError.
\<close>

definition at_row :: "number list list \<Rightarrow> int \<Rightarrow> number list option" where
  "at_row sp t = (if 0 \<le> t \<and> t < int (length sp) then Some (sp ! nat t) else None)"

text \<open>\<open>row[i]\<close> on a row of numbers, read as a number: \<open>undefined\<close> is \<open>NaN\<close>.\<close>

definition at_bin :: "number list \<Rightarrow> int \<Rightarrow> number" where
  "at_bin r f = (if 0 \<le> f \<and> f < int (length r) then r ! nat f else NaN)"

section \<open>The peak detector (peakfinder.js)\<close>

record peak =
  time :: int
  freq :: int
  amplitude :: number

text \<open>\<open>spectrogram[t + dt][f + df]\<close>, which throws when the row is \<open>undefined\<close>.\<close>

definition neighbor :: "number list list \<Rightarrow> int \<Rightarrow> int \<Rightarrow> error + number" where
  "neighbor sp t f =
     (case at_row sp t of None \<Rightarrow> Inl TypeError | Some r \<Rightarrow> Inr (at_bin r f))"

text \<open>
  The loop over \<open>df\<close> (line 56), with its exit as soon as \<open>isPeak\<close> is false and the
  \<open>continue\<close> at the candidate itself.
\<close>

function dfLoop ::
  "number list list \<Rightarrow> int \<Rightarrow> int \<Rightarrow> number \<Rightarrow> int \<Rightarrow> int \<Rightarrow> int \<Rightarrow> bool \<Rightarrow> error + bool" where
  "dfLoop sp t f v freqN dt df isPeak =
     (if df \<le> freqN \<and> isPeak then
        (if dt = 0 \<and> df = 0 then dfLoop sp t f v freqN dt (df + 1) isPeak
         else
           (case neighbor sp (t + dt) (f + df) of
              Inl e \<Rightarrow> Inl e
            | Inr n \<Rightarrow>
                dfLoop sp t f v freqN dt (df + 1) (if js_ge n v then False else isPeak)))
      else Inr isPeak)"
  by pat_completeness auto
termination
  by (relation "measure (\<lambda>(sp, t, f, v, freqN, dt, df, isPeak). nat (freqN + 1 - df))") auto

text \<open>The loop over \<open>dt\<close> (line 55).\<close>

function dtLoop ::
  "number list list \<Rightarrow> int \<Rightarrow> int \<Rightarrow> number \<Rightarrow> int \<Rightarrow> int \<Rightarrow> int \<Rightarrow> bool \<Rightarrow> error + bool" where
  "dtLoop sp t f v timeN freqN dt isPeak =
     (if dt \<le> timeN \<and> isPeak then
        (case dfLoop sp t f v freqN dt (- freqN) isPeak of
           Inl e \<Rightarrow> Inl e
         | Inr b \<Rightarrow> dtLoop sp t f v timeN freqN (dt + 1) b)
      else Inr isPeak)"
  by pat_completeness auto
termination
  by (relation "measure (\<lambda>(sp, t, f, v, timeN, freqN, dt, isPeak). nat (timeN + 1 - dt))") auto

text \<open>
  The loop over \<open>f\<close> (line 44). Its bound reads \<open>spectrogram[t].length\<close> at every
  test, which throws when row \<open>t\<close> is \<open>undefined\<close>.
\<close>

function fLoop ::
  "number list list \<Rightarrow> int \<Rightarrow> int \<Rightarrow> int \<Rightarrow> real \<Rightarrow> int \<Rightarrow> int \<Rightarrow> peak list \<Rightarrow> error + peak list"
  where
  "fLoop sp maxFreq timeN freqN threshold t f peaks =
     (case at_row sp t of
        None \<Rightarrow> Inl TypeError
      | Some r \<Rightarrow>
          if f < min maxFreq (int (length r) - freqN) then
            (let v = at_bin r f;
                 isPeak = js_gt v (Num threshold)
             in case (if isPeak then dtLoop sp t f v timeN freqN (- timeN) isPeak
                      else Inr isPeak) of
                  Inl e \<Rightarrow> Inl e
                | Inr b \<Rightarrow>
                    fLoop sp maxFreq timeN freqN threshold t (f + 1)
                      (if b then peaks @ [\<lparr>time = t, freq = f, amplitude = v\<rparr>] else peaks))
          else Inr peaks)"
  by pat_completeness auto
termination
  by (relation "measure (\<lambda>(sp, maxFreq, timeN, freqN, threshold, t, f, peaks).
        case at_row sp t of None \<Rightarrow> 0
        | Some r \<Rightarrow> nat (min maxFreq (int (length r) - freqN) - f))") auto

text \<open>The loop over \<open>t\<close> (line 40).\<close>

function tLoop ::
  "number list list \<Rightarrow> int \<Rightarrow> int \<Rightarrow> int \<Rightarrow> int \<Rightarrow> real \<Rightarrow> int \<Rightarrow> peak list \<Rightarrow> error + peak list"
  where
  "tLoop sp minFreq maxFreq timeN freqN threshold t peaks =
     (if t < int (length sp) - timeN then
        (case fLoop sp maxFreq timeN freqN threshold t minFreq peaks of
           Inl e \<Rightarrow> Inl e
         | Inr ps \<Rightarrow> tLoop sp minFreq maxFreq timeN freqN threshold (t + 1) ps)
      else Inr peaks)"
  by pat_completeness auto
termination
  by (relation "measure (\<lambda>(sp, minFreq, maxFreq, timeN, freqN, threshold, t, peaks).
        nat (int (length sp) - timeN - t))") auto

declare dfLoop.simps [simp del] dtLoop.simps [simp del] fLoop.simps [simp del]
  tLoop.simps [simp del]

definition findPeaks ::
  "number list list \<Rightarrow> int \<Rightarrow> int \<Rightarrow> int \<times> int \<Rightarrow> real \<Rightarrow> error + peak list" where
  "findPeaks spectrogram minFreq maxFreq neighborhood threshold =
     (case neighborhood of (timeNeighborhood, freqNeighborhood) \<Rightarrow>
        tLoop spectrogram minFreq maxFreq timeNeighborhood freqNeighborhood threshold
          timeNeighborhood [])"

text \<open>
  The reading of the detector that the specification gives: a cell of the scan region is
  a landmark when it exceeds the threshold and no neighbour disqualifies it, every
  neighbour being looked at (no early exit). \<open>cell\<close> reads the matrix as a number,
  \<open>NaN\<close> where there is no such cell.
\<close>

definition cell :: "number list list \<Rightarrow> int \<Rightarrow> int \<Rightarrow> number" where
  "cell sp t f = (case at_row sp t of None \<Rightarrow> NaN | Some r \<Rightarrow> at_bin r f)"

definition noNeighborDisqualifies ::
  "number list list \<Rightarrow> int \<Rightarrow> int \<Rightarrow> int \<Rightarrow> int \<Rightarrow> bool" where
  "noNeighborDisqualifies sp timeN freqN t f =
     list_all (\<lambda>dt. list_all (\<lambda>df. (dt = 0 \<and> df = 0) \<or>
                   \<not> js_ge (cell sp (t + dt) (f + df)) (cell sp t f)) [- freqN..freqN])
       [- timeN..timeN]"

definition qualifies :: "number list list \<Rightarrow> int \<Rightarrow> int \<Rightarrow> real \<Rightarrow> int \<Rightarrow> int \<Rightarrow> bool" where
  "qualifies sp timeN freqN threshold t f =
     (js_gt (cell sp t f) (Num threshold) \<and> noNeighborDisqualifies sp timeN freqN t f)"

text \<open>
  The scan region, in scan order: \<open>t\<close> in \<open>[timeN, rowCount - timeN)\<close> and \<open>f\<close> in
  \<open>[minFreq, min(maxFreq, rowLength(t) - freqN))\<close>.
\<close>

definition scanRegion ::
  "number list list \<Rightarrow> int \<Rightarrow> int \<Rightarrow> int \<Rightarrow> int \<Rightarrow> (int \<times> int) list" where
  "scanRegion sp minFreq maxFreq timeN freqN =
     concat (map (\<lambda>t. map (Pair t)
                   [minFreq..min maxFreq (int (length (sp ! nat t)) - freqN) - 1])
               [timeN..int (length sp) - timeN - 1])"

definition mkPeak :: "number list list \<Rightarrow> int \<times> int \<Rightarrow> peak" where
  "mkPeak sp = (\<lambda>(t, f). \<lparr>time = t, freq = f, amplitude = cell sp t f\<rparr>)"

definition detect_spec ::
  "number list list \<Rightarrow> int \<Rightarrow> int \<Rightarrow> int \<times> int \<Rightarrow> real \<Rightarrow> peak list" where
  "detect_spec sp minFreq maxFreq neighborhood threshold =
     (case neighborhood of (timeN, freqN) \<Rightarrow>
        map (mkPeak sp)
          (filter (\<lambda>(t, f). qualifies sp timeN freqN threshold t f)
             (scanRegion sp minFreq maxFreq timeN freqN)))"

text \<open>
  A neighbour offset of a candidate: inside the window and not the candidate itself.
\<close>

definition inWindow :: "int \<Rightarrow> int \<Rightarrow> int \<Rightarrow> int \<Rightarrow> bool" where
  "inWindow timeN freqN dt df =
     (- timeN \<le> dt \<and> dt \<le> timeN \<and> - freqN \<le> df \<and> df \<le> freqN \<and> (dt, df) \<noteq> (0, 0))"

definition inScan :: "number list list \<Rightarrow> int \<Rightarrow> int \<Rightarrow> int \<Rightarrow> int \<Rightarrow> int \<Rightarrow> int \<Rightarrow> bool" where
  "inScan sp minFreq maxFreq timeN freqN t f =
     (timeN \<le> t \<and> t < int (length sp) - timeN \<and>
      minFreq \<le> f \<and> f < min maxFreq (int (length (sp ! nat t)) - freqN))"

text \<open>The landmarks that a call returns: none when it throws.\<close>

definition returned :: "error + peak list \<Rightarrow> peak set" where
  "returned r = (case r of Inl e \<Rightarrow> {} | Inr ps \<Rightarrow> set ps)"

section \<open>The spectrogram builder (spectogram.js)\<close>

text \<open>Arithmetic of JavaScript on numbers: \<open>NaN\<close> in, \<open>NaN\<close> out.\<close>

fun js_mul :: "number \<Rightarrow> number \<Rightarrow> number" where
  "js_mul (Num a) (Num b) = Num (a * b)"
| "js_mul _ _ = NaN"

fun js_add :: "number \<Rightarrow> number \<Rightarrow> number" where
  "js_add (Num a) (Num b) = Num (a + b)"
| "js_add _ _ = NaN"

fun js_sqrt :: "number \<Rightarrow> number" where
  "js_sqrt (Num a) = (if a < 0 then NaN else Num (sqrt a))"
| "js_sqrt NaN = NaN"

text \<open>
  \<open>new Float32Array(n)\<close>: \<open>n\<close> zeros, and a RangeError for a negative length.
\<close>

definition float32Array :: "int \<Rightarrow> error + number list" where
  "float32Array n = (if n < 0 then Inl RangeError else Inr (replicate (nat n) (Num 0)))"

text \<open>
  The coefficient \<open>0.54 - 0.46 * Math.cos(2 * Math.PI * i / (windowSize - 1))\<close> (line 39).
  A division by zero gives \<open>NaN\<close> (for \<open>0 / 0\<close>) or an infinity, the cosine of either is
  \<open>NaN\<close>, and so are its product and difference: HOL's \<open>x / 0 = 0\<close> is not used.
  A coefficient that is a number is held here as the unrounded real. The code computes it
  in doubles and stores it into a \<open>Float32Array\<close>, which rounds it (the stored first
  coefficient is slightly below \<open>0.08\<close>); no theorem of this theory says what the value
  of such a coefficient is, only how many there are and which are \<open>NaN\<close>.
\<close>

definition hammingCoeff :: "int \<Rightarrow> int \<Rightarrow> number" where
  "hammingCoeff windowSize i =
     (if windowSize - 1 = 0 then NaN
      else Num (0.54 - 0.46 * cos (2 * pi * real_of_int i / real_of_int (windowSize - 1))))"

text \<open>The loop of lines 37 to 40, which fills the window array index by index.\<close>

definition hammingWindow :: "int \<Rightarrow> number list" where
  "hammingWindow windowSize = map (\<lambda>i. hammingCoeff windowSize (int i)) [0..<nat windowSize]"

text \<open>
  The transform is an external library: \<open>new FFT(windowSize)\<close> either throws or gives
  an object whose \<open>realTransform\<close> maps a windowed frame to an array of interleaved real
  and imaginary parts, or throws. Both are parameters of the model.
\<close>

type_synonym transform = "number list \<Rightarrow> error + number list"

text \<open>
  The body of the frame loop (lines 48 to 74) for the frame that starts at \<open>i\<close>. The
  magnitude array has \<open>windowSize / 2\<close> entries, rounded down by the typed array; a write
  past its end is dropped.
\<close>

definition frame :: "transform \<Rightarrow> number list \<Rightarrow> number list \<Rightarrow> int \<Rightarrow> int \<Rightarrow> error + number list"
  where
  "frame realTransform audioData window windowSize i =
     (let windowData = map (\<lambda>j. js_mul (at_bin audioData (i + int j)) (at_bin window (int j)))
                         [0..<nat windowSize]
      in case realTransform windowData of
           Inl e \<Rightarrow> Inl e
         | Inr spectrum \<Rightarrow>
             Inr (map (\<lambda>j. let re = at_bin spectrum (2 * int j);
                                  im = at_bin spectrum (2 * int j + 1)
                              in js_sqrt (js_add (js_mul re re) (js_mul im im)))
                    [0..<nat (windowSize div 2)]))"

text \<open>
  The frame loop (line 45). It need not end (a hop size of zero never advances), so its
  result is optional: \<open>None\<close> is a run that never returns.
\<close>

partial_function (option) frameLoop ::
  "transform \<Rightarrow> number list \<Rightarrow> number list \<Rightarrow> int \<Rightarrow> int \<Rightarrow> int \<Rightarrow> number list list \<Rightarrow>
     (error + number list list) option" where
  "frameLoop realTransform audioData window windowSize hopSize i spectogram =
     (if i < int (length audioData) - windowSize then
        (case frame realTransform audioData window windowSize i of
           Inl e \<Rightarrow> Some (Inl e)
         | Inr magnitudes \<Rightarrow>
             frameLoop realTransform audioData window windowSize hopSize (i + hopSize)
               (spectogram @ [magnitudes]))
      else Some (Inr spectogram))"

definition createSpectogram ::
  "(int \<Rightarrow> error + transform) \<Rightarrow> number list \<Rightarrow> int \<Rightarrow> int \<Rightarrow> int \<Rightarrow>
     (error + number list list) option" where
  "createSpectogram FFT audioData sampleRate windowSize hopSize =
     (case FFT windowSize of
        Inl e \<Rightarrow> Some (Inl e)
      | Inr fft \<Rightarrow>
          (case float32Array windowSize of
             Inl e \<Rightarrow> Some (Inl e)
           | Inr _ \<Rightarrow>
               frameLoop fft audioData (hammingWindow windowSize) windowSize hopSize 0 []))"


text \<open>
  The starts of the frames that the loop still takes when its counter is \<open>i\<close>: the
  integers from \<open>i\<close> in steps of \<open>h\<close> below the bound \<open>n\<close>.
\<close>

definition starts :: "int \<Rightarrow> int \<Rightarrow> int \<Rightarrow> int set" where
  "starts n h i = {s. i \<le> s \<and> s < n \<and> h dvd (s - i)}"

section \<open>The detector's loops, computed\<close>

text \<open>
  Each loop is unfolded once by a lemma of its own, and then characterised by induction:
  the early-exit scans compute the conjunction over their whole range.
\<close>

lemma dfLoop_stop: "\<not> (df \<le> freqN \<and> b) \<Longrightarrow> dfLoop sp t f v freqN dt df b = Inr b"
  using dfLoop.simps[of sp t f v freqN dt df b] by auto

lemma dfLoop_self:
  "df \<le> freqN \<Longrightarrow> dt = 0 \<and> df = 0 \<Longrightarrow>
   dfLoop sp t f v freqN dt df True = dfLoop sp t f v freqN dt (df + 1) True"
  using dfLoop.simps[of sp t f v freqN dt df True] by simp

lemma dfLoop_step:
  "df \<le> freqN \<Longrightarrow> \<not> (dt = 0 \<and> df = 0) \<Longrightarrow> neighbor sp (t + dt) (f + df) = Inr n \<Longrightarrow>
   dfLoop sp t f v freqN dt df True = dfLoop sp t f v freqN dt (df + 1) (\<not> js_ge n v)"
  using dfLoop.simps[of sp t f v freqN dt df True] by auto

lemma dfLoop_eq:
  "at_row sp (t + dt) = Some r \<Longrightarrow>
   dfLoop sp t f v freqN dt df b =
     Inr (b \<and> list_all (\<lambda>df. (dt = 0 \<and> df = 0) \<or> \<not> js_ge (at_bin r (f + df)) v) [df..freqN])"
proof (induction sp t f v freqN dt df b rule: dfLoop.induct)
  case (1 sp t f v freqN dt df isPeak)
  show ?case
  proof (cases "df \<le> freqN \<and> isPeak")
    case False
    then show ?thesis by (auto simp: dfLoop_stop list_all_iff)
  next
    case True
    then have up: "[df..freqN] = df # [df + 1..freqN]" and b: "isPeak = True" and le: "df \<le> freqN"
      by (simp_all add: upto_rec1)
    show ?thesis
    proof (cases "dt = 0 \<and> df = 0")
      case z: True
      have "dfLoop sp t f v freqN dt df isPeak = dfLoop sp t f v freqN dt (df + 1) isPeak"
        unfolding b by (rule dfLoop_self[OF le z])
      also note "1.IH"(1)[OF True z "1.prems"]
      also have "Inr (isPeak \<and> list_all (\<lambda>df. (dt = 0 \<and> df = 0) \<or> \<not> js_ge (at_bin r (f + df)) v) [df + 1..freqN])
          = (Inr (isPeak \<and> list_all (\<lambda>df. (dt = 0 \<and> df = 0) \<or> \<not> js_ge (at_bin r (f + df)) v) [df..freqN]) :: error + bool)"
        unfolding up using z by simp
      finally show ?thesis .
    next
      case nz: False
      have nb: "neighbor sp (t + dt) (f + df) = Inr (at_bin r (f + df))"
        using "1.prems" by (simp add: neighbor_def)
      have ite: "(if js_ge (at_bin r (f + df)) v then False else isPeak) = (\<not> js_ge (at_bin r (f + df)) v)"
        using True by simp
      have "dfLoop sp t f v freqN dt df isPeak =
          dfLoop sp t f v freqN dt (df + 1) (\<not> js_ge (at_bin r (f + df)) v)"
        unfolding b by (rule dfLoop_step[OF le nz nb])
      also note "1.IH"(2)[OF True nz nb "1.prems", unfolded ite]
      also have "Inr (\<not> js_ge (at_bin r (f + df)) v \<and> list_all (\<lambda>df. (dt = 0 \<and> df = 0) \<or> \<not> js_ge (at_bin r (f + df)) v) [df + 1..freqN])
          = (Inr (isPeak \<and> list_all (\<lambda>df. (dt = 0 \<and> df = 0) \<or> \<not> js_ge (at_bin r (f + df)) v) [df..freqN]) :: error + bool)"
        unfolding up using nz True by auto
      finally show ?thesis .
    qed
  qed
qed

lemma dtLoop_stop: "\<not> (dt \<le> timeN \<and> b) \<Longrightarrow> dtLoop sp t f v timeN freqN dt b = Inr b"
  using dtLoop.simps[of sp t f v timeN freqN dt b] by auto

lemma dtLoop_step:
  "dt \<le> timeN \<Longrightarrow> dfLoop sp t f v freqN dt (- freqN) True = Inr b' \<Longrightarrow>
   dtLoop sp t f v timeN freqN dt True = dtLoop sp t f v timeN freqN (dt + 1) b'"
  using dtLoop.simps[of sp t f v timeN freqN dt True] by simp

lemma dtLoop_eq:
  "\<forall>d \<in> set [dt..timeN]. at_row sp (t + d) \<noteq> None \<Longrightarrow>
   dtLoop sp t f v timeN freqN dt b =
     Inr (b \<and> list_all (\<lambda>dt. list_all (\<lambda>df. (dt = 0 \<and> df = 0) \<or>
                \<not> js_ge (cell sp (t + dt) (f + df)) v) [- freqN..freqN]) [dt..timeN])"
proof (induction sp t f v timeN freqN dt b rule: dtLoop.induct)
  case (1 sp t f v timeN freqN dt isPeak)
  show ?case
  proof (cases "dt \<le> timeN \<and> isPeak")
    case False
    then show ?thesis by (auto simp: dtLoop_stop list_all_iff)
  next
    case True
    then have up: "[dt..timeN] = dt # [dt + 1..timeN]" and b: "isPeak = True" and le: "dt \<le> timeN"
      by (simp_all add: upto_rec1)
    from "1.prems" True have "at_row sp (t + dt) \<noteq> None" by simp
    then obtain r where r: "at_row sp (t + dt) = Some r" by auto
    have cellr: "\<And>g. cell sp (t + dt) g = at_bin r g" by (simp add: cell_def r)
    let ?b = "list_all (\<lambda>df. (dt = 0 \<and> df = 0) \<or> \<not> js_ge (at_bin r (f + df)) v) [- freqN..freqN]"
    have df: "dfLoop sp t f v freqN dt (- freqN) True = Inr ?b"
      by (simp add: dfLoop_eq[OF r])
    have df': "dfLoop sp t f v freqN dt (- freqN) isPeak = Inr ?b"
      using df b by simp
    have rest: "\<forall>d \<in> set [dt + 1..timeN]. at_row sp (t + d) \<noteq> None"
      using "1.prems" by auto
    show ?thesis
      unfolding up using "1.IH"[OF True df' rest]
      by (simp add: b dtLoop_step[OF le df] cellr)
  qed
qed


lemma fLoop_stop:
  "at_row sp t = Some r \<Longrightarrow> \<not> f < min maxFreq (int (length r) - freqN) \<Longrightarrow>
   fLoop sp maxFreq timeN freqN th t f ps = Inr ps"
  using fLoop.simps[of sp maxFreq timeN freqN th t f ps] by auto

lemma fLoop_step:
  assumes r: "at_row sp t = Some r"
    and lt: "f < min maxFreq (int (length r) - freqN)"
    and rows: "\<forall>d \<in> set [- timeN..timeN]. at_row sp (t + d) \<noteq> None"
  shows "fLoop sp maxFreq timeN freqN th t f ps =
         fLoop sp maxFreq timeN freqN th t (f + 1)
           (if qualifies sp timeN freqN th t f then ps @ [mkPeak sp (t, f)] else ps)"
proof -
  have c: "cell sp t f = at_bin r f" by (simp add: cell_def r)
  show ?thesis
  proof (cases "js_gt (at_bin r f) (Num th)")
    case False
    then show ?thesis
      using fLoop.simps[of sp maxFreq timeN freqN th t f ps] r lt
      by (simp add: qualifies_def c)
  next
    case True
    have "dtLoop sp t f (at_bin r f) timeN freqN (- timeN) True =
          Inr (noNeighborDisqualifies sp timeN freqN t f)"
      by (simp add: dtLoop_eq[OF rows] noNeighborDisqualifies_def c)
    then show ?thesis
      using fLoop.simps[of sp maxFreq timeN freqN th t f ps] r lt True
      by (simp add: qualifies_def c mkPeak_def)
  qed
qed

lemma fLoop_eq:
  assumes r: "at_row sp t = Some r"
    and rows: "\<forall>d \<in> set [- timeN..timeN]. at_row sp (t + d) \<noteq> None"
  shows "fLoop sp maxFreq timeN freqN th t f ps =
         Inr (ps @ map (mkPeak sp) (filter (\<lambda>(t, f). qualifies sp timeN freqN th t f)
                (map (Pair t) [f..min maxFreq (int (length r) - freqN) - 1])))"
proof -
  define hi where "hi = min maxFreq (int (length r) - freqN)"
  have "fLoop sp maxFreq timeN freqN th t f ps =
         Inr (ps @ map (mkPeak sp) (filter (\<lambda>(t, f). qualifies sp timeN freqN th t f)
                (map (Pair t) [f..hi - 1])))"
  proof (induction "nat (hi - f)" arbitrary: f ps)
    case 0
    then have ge: "\<not> f < hi" by simp
    then have "[f..hi - 1] = []" by simp
    then show ?case using fLoop_stop[where maxFreq=maxFreq and freqN=freqN, OF r, folded hi_def, OF ge] by simp
  next
    case (Suc n)
    then have lt: "f < hi" by linarith
    then have up: "[f..hi - 1] = f # [f + 1..hi - 1]"
      by (simp add: upto_rec1)
    have n: "n = nat (hi - (f + 1))"
      using Suc.hyps(2) by linarith
    show ?case
      unfolding up fLoop_step[where maxFreq=maxFreq and freqN=freqN, OF r, folded hi_def, OF lt rows]
        Suc.hyps(1)[OF n] by simp
  qed
  then show ?thesis unfolding hi_def .
qed

lemma tLoop_stop:
  "\<not> t < int (length sp) - timeN \<Longrightarrow> tLoop sp minFreq maxFreq timeN freqN th t ps = Inr ps"
  using tLoop.simps[of sp minFreq maxFreq timeN freqN th t ps] by simp

lemma tLoop_step:
  "t < int (length sp) - timeN \<Longrightarrow> fLoop sp maxFreq timeN freqN th t minFreq ps = Inr ps' \<Longrightarrow>
   tLoop sp minFreq maxFreq timeN freqN th t ps = tLoop sp minFreq maxFreq timeN freqN th (t + 1) ps'"
  using tLoop.simps[of sp minFreq maxFreq timeN freqN th t ps] by simp

lemma tLoop_eq:
  assumes tn: "0 \<le> timeN"
  shows "timeN \<le> t \<Longrightarrow> tLoop sp minFreq maxFreq timeN freqN th t ps =
         Inr (ps @ map (mkPeak sp) (filter (\<lambda>(t, f). qualifies sp timeN freqN th t f)
           (concat (map (\<lambda>t. map (Pair t)
                   [minFreq..min maxFreq (int (length (sp ! nat t)) - freqN) - 1])
               [t..int (length sp) - timeN - 1]))))"
proof (induction "nat (int (length sp) - timeN - t)" arbitrary: t ps)
  case 0
  then have "\<not> t < int (length sp) - timeN" by simp
  then show ?case by (simp add: tLoop_stop)
next
  case (Suc n)
  then have lt: "t < int (length sp) - timeN" by linarith
  then have up: "[t..int (length sp) - timeN - 1] = t # [t + 1..int (length sp) - timeN - 1]"
    by (simp add: upto_rec1)
  have n: "n = nat (int (length sp) - timeN - (t + 1))"
    using Suc.hyps(2) by linarith
  have r: "at_row sp t = Some (sp ! nat t)"
    using tn Suc.prems lt by (simp add: at_row_def)
  have rows: "\<forall>d \<in> set [- timeN..timeN]. at_row sp (t + d) \<noteq> None"
    using tn Suc.prems lt by (auto simp: at_row_def)
  have le: "timeN \<le> t + 1" using Suc.prems by simp
  show ?case
    unfolding up tLoop_step[OF lt fLoop_eq[OF r rows]] Suc.hyps(1)[OF n le] by simp
qed

lemma findPeaks_eq:
  "0 \<le> timeN \<Longrightarrow>
   findPeaks sp minFreq maxFreq (timeN, freqN) th =
     Inr (detect_spec sp minFreq maxFreq (timeN, freqN) th)"
  by (simp add: findPeaks_def detect_spec_def scanRegion_def tLoop_eq)

lemma findPeaks_neg:
  "timeN < 0 \<Longrightarrow> findPeaks sp minFreq maxFreq (timeN, freqN) th = Inl TypeError"
  using tLoop.simps[of sp minFreq maxFreq timeN freqN th timeN "[]"]
    fLoop.simps[of sp maxFreq timeN freqN th timeN minFreq "[]"]
  by (simp add: findPeaks_def at_row_def)

section \<open>The declarative detector, as a set\<close>

lemma set_scanRegion:
  "(t, f) \<in> set (scanRegion sp minFreq maxFreq timeN freqN) \<longleftrightarrow>
     inScan sp minFreq maxFreq timeN freqN t f"
proof -
  have "(t, f) \<in> set (scanRegion sp minFreq maxFreq timeN freqN) \<longleftrightarrow>
      t \<in> {timeN..int (length sp) - timeN - 1} \<and>
      f \<in> {minFreq..min maxFreq (int (length (sp ! nat t)) - freqN) - 1}"
    unfolding scanRegion_def by (simp add: image_iff)
  also have "\<dots> \<longleftrightarrow> inScan sp minFreq maxFreq timeN freqN t f"
    unfolding inScan_def by auto
  finally show ?thesis .
qed

lemma distinct_pairs:
  "distinct ts \<Longrightarrow> (\<And>t. distinct (g t)) \<Longrightarrow>
   distinct (concat (map (\<lambda>t. map (Pair t) (g t)) ts))"
  by (induction ts) (auto simp: distinct_map inj_on_def)

lemma distinct_scanRegion: "distinct (scanRegion sp minFreq maxFreq timeN freqN)"
  unfolding scanRegion_def by (rule distinct_pairs) simp_all

lemma filter_single:
  "distinct xs \<Longrightarrow> x \<in> set xs \<Longrightarrow> P x \<Longrightarrow> \<forall>y \<in> set xs. P y \<longrightarrow> y = x \<Longrightarrow>
   filter P xs = [x]"
proof (induction xs)
  case Nil
  from Nil.prems(2) show ?case by simp
next
  case (Cons y ys)
  show ?case
  proof (cases "y = x")
    case True
    have "x \<notin> set ys" using Cons.prems(1) True by simp
    then have "\<forall>z \<in> set ys. \<not> P z" using Cons.prems(4) by auto
    then have "filter P ys = []" by (simp add: filter_empty_conv)
    then show ?thesis using True Cons.prems(3) by simp
  next
    case False
    have "\<not> P y" using Cons.prems(4) False by auto
    moreover have "filter P ys = [x]"
    proof (rule Cons.IH)
      show "distinct ys" using Cons.prems(1) by simp
      show "x \<in> set ys" using Cons.prems(2) False by simp
      show "P x" by (rule Cons.prems(3))
      show "\<forall>y \<in> set ys. P y \<longrightarrow> y = x" using Cons.prems(4) by simp
    qed
    ultimately show ?thesis by simp
  qed
qed

lemma inWindow_all_iff:
  "(\<forall>dt df. inWindow timeN freqN dt df \<longrightarrow> P dt df) \<longleftrightarrow>
     list_all (\<lambda>dt. list_all (\<lambda>df. (dt = 0 \<and> df = 0) \<or> P dt df) [- freqN..freqN])
       [- timeN..timeN]"
proof
  assume L: "\<forall>dt df. inWindow timeN freqN dt df \<longrightarrow> P dt df"
  show "list_all (\<lambda>dt. list_all (\<lambda>df. (dt = 0 \<and> df = 0) \<or> P dt df) [- freqN..freqN])
       [- timeN..timeN]"
    unfolding list_all_iff
  proof (intro ballI)
    fix dt df
    assume m: "dt \<in> set [- timeN..timeN]" "df \<in> set [- freqN..freqN]"
    show "dt = 0 \<and> df = 0 \<or> P dt df"
    proof (cases "dt = 0 \<and> df = 0")
      case True
      then show ?thesis by (rule disjI1)
    next
      case False
      with m have "inWindow timeN freqN dt df" by (simp add: inWindow_def)
      with L show ?thesis by blast
    qed
  qed
next
  assume R: "list_all (\<lambda>dt. list_all (\<lambda>df. (dt = 0 \<and> df = 0) \<or> P dt df) [- freqN..freqN])
       [- timeN..timeN]"
  show "\<forall>dt df. inWindow timeN freqN dt df \<longrightarrow> P dt df"
  proof (intro allI impI)
    fix dt df
    assume "inWindow timeN freqN dt df"
    then have "dt \<in> set [- timeN..timeN]" "df \<in> set [- freqN..freqN]" "\<not> (dt = 0 \<and> df = 0)"
      by (simp_all add: inWindow_def)
    with R show "P dt df" unfolding list_all_iff by blast
  qed
qed

lemma noNeighborDisqualifies_iff:
  "noNeighborDisqualifies sp timeN freqN t f \<longleftrightarrow>
     (\<forall>dt df. inWindow timeN freqN dt df \<longrightarrow>
        \<not> js_ge (cell sp (t + dt) (f + df)) (cell sp t f))"
  unfolding noNeighborDisqualifies_def by (rule inWindow_all_iff[symmetric])

lemma mem_detect_spec:
  "p \<in> set (detect_spec sp minFreq maxFreq (timeN, freqN) th) \<longleftrightarrow>
     inScan sp minFreq maxFreq timeN freqN (time p) (freq p) \<and>
     amplitude p = cell sp (time p) (freq p) \<and>
     qualifies sp timeN freqN th (time p) (freq p)"
  for p :: peak
proof -
  have p: "p = \<lparr>time = time p, freq = freq p, amplitude = amplitude p\<rparr>" by simp
  show ?thesis
    apply (simp add: detect_spec_def mkPeak_def set_scanRegion image_iff)
    apply (rule iffI)
     apply (auto)[1]
    apply (rule exI[of _ "time p"], rule exI[of _ "freq p"])
    apply simp
    done
qed

lemma qualifies_symmetric_tie:
  assumes w: "inWindow timeN freqN dt df"
    and eq: "cell sp (t + dt) (f + df) = cell sp t f"
  shows "\<not> qualifies sp timeN freqN th t f"
    and "\<not> qualifies sp timeN freqN th (t + dt) (f + df)"
proof -
  show "\<not> qualifies sp timeN freqN th t f"
  proof
    assume q: "qualifies sp timeN freqN th t f"
    then obtain a where a: "cell sp t f = Num a"
      by (cases "cell sp t f") (auto simp: qualifies_def)
    from q w have "\<not> js_ge (cell sp (t + dt) (f + df)) (cell sp t f)"
      by (simp add: qualifies_def noNeighborDisqualifies_iff)
    then show False by (simp add: eq a)
  qed
  show "\<not> qualifies sp timeN freqN th (t + dt) (f + df)"
  proof
    assume q: "qualifies sp timeN freqN th (t + dt) (f + df)"
    then obtain a where a: "cell sp (t + dt) (f + df) = Num a"
      by (cases "cell sp (t + dt) (f + df)") (auto simp: qualifies_def)
    from w have w': "inWindow timeN freqN (- dt) (- df)" by (auto simp: inWindow_def)
    from q w' have "\<not> js_ge (cell sp (t + dt + - dt) (f + df + - df)) (cell sp (t + dt) (f + df))"
      unfolding qualifies_def noNeighborDisqualifies_iff by blast
    then show False by (simp add: eq[symmetric] a)
  qed
qed

lemma js_gt_iff: "js_gt a b \<longleftrightarrow> (\<exists>x y. a = Num x \<and> b = Num y \<and> y < x)"
  by (cases a; cases b) auto

lemma not_js_ge_iff: "b \<noteq> NaN \<Longrightarrow> \<not> js_ge b (Num x) \<longleftrightarrow> js_gt (Num x) b"
  by (cases b) auto

lemma returned_findPeaks:
  "0 \<le> timeN \<Longrightarrow>
   returned (findPeaks sp minFreq maxFreq (timeN, freqN) th) =
     set (detect_spec sp minFreq maxFreq (timeN, freqN) th)"
  by (simp add: returned_def findPeaks_eq)

lemma qualifies_cell_exists:
  assumes "qualifies sp timeN freqN th t f"
  shows "0 \<le> t \<and> t < int (length sp) \<and> 0 \<le> f \<and> f < int (length (sp ! nat t))"
proof -
  from assms have "cell sp t f \<noteq> NaN"
    by (auto simp: qualifies_def js_gt_iff)
  then show ?thesis
    by (auto simp: cell_def at_row_def at_bin_def split: if_splits)
qed

lemma only_qualifies_iff:
  "(\<forall>t' f'. qualifies sp timeN freqN th t' f' \<longrightarrow> (t', f') = (t, f)) \<longleftrightarrow>
     list_all (\<lambda>t'. list_all (\<lambda>f'. qualifies sp timeN freqN th t' f' \<longrightarrow> (t', f') = (t, f))
                  [0..int (length (sp ! nat t')) - 1])
       [0..int (length sp) - 1]"
proof
  assume "\<forall>t' f'. qualifies sp timeN freqN th t' f' \<longrightarrow> (t', f') = (t, f)"
  then show "list_all (\<lambda>t'. list_all (\<lambda>f'. qualifies sp timeN freqN th t' f' \<longrightarrow> (t', f') = (t, f))
                  [0..int (length (sp ! nat t')) - 1]) [0..int (length sp) - 1]"
    by (simp add: list_all_iff)
next
  assume R: "list_all (\<lambda>t'. list_all (\<lambda>f'. qualifies sp timeN freqN th t' f' \<longrightarrow> (t', f') = (t, f))
                  [0..int (length (sp ! nat t')) - 1]) [0..int (length sp) - 1]"
  show "\<forall>t' f'. qualifies sp timeN freqN th t' f' \<longrightarrow> (t', f') = (t, f)"
  proof (intro allI impI)
    fix t' f'
    assume q: "qualifies sp timeN freqN th t' f'"
    from qualifies_cell_exists[OF q]
    have "t' \<in> set [0..int (length sp) - 1]" "f' \<in> set [0..int (length (sp ! nat t')) - 1]"
      by simp_all
    with R q show "(t', f') = (t, f)" unfolding list_all_iff by blast
  qed
qed

text \<open>Every landmark lies in the scan region, whatever the parameters.\<close>

lemma findPeaks_in_scan:
  "p \<in> returned (findPeaks sp minFreq maxFreq (timeN, freqN) th) \<Longrightarrow>
   timeN \<le> time p \<and> time p < int (length sp) - timeN \<and> minFreq \<le> freq p \<and>
   freq p < min maxFreq (int (length (sp ! nat (time p))) - freqN)"
proof (cases "0 \<le> timeN")
  case True
  assume "p \<in> returned (findPeaks sp minFreq maxFreq (timeN, freqN) th)"
  then show ?thesis
    unfolding returned_findPeaks[OF True] mem_detect_spec inScan_def by simp
next
  case False
  assume "p \<in> returned (findPeaks sp minFreq maxFreq (timeN, freqN) th)"
  with False show ?thesis by (simp add: findPeaks_neg returned_def)
qed

section \<open>The claims about the detector\<close>

text \<open>
  C8. For every spectrogram and parameters (the time radius not negative, without which
  the detector throws), the detector with its early exit on the first disqualifying
  neighbour returns exactly the landmarks, in the same order, that the declarative
  predicate selects: the candidate exceeds the threshold and no neighbour of the full
  neighbourhood has a value greater than or equal to it.
\<close>
theorem findPeaks_refines_detect_spec:
  "0 \<le> timeN \<Longrightarrow>
   findPeaks sp minFreq maxFreq (timeN, freqN) threshold =
     Inr (detect_spec sp minFreq maxFreq (timeN, freqN) threshold)"
  by (rule findPeaks_eq)

theorem findPeaks_refines_detect_spec_witness:
  "findPeaks [[Num 0.2, Num 0.3, Num 0.1], [Num 0.4, Num 0.9, Num 0.6], [Num 0.1, Num 0.8, Num 0.7]]
       1 300 (1, 1) 0.5
     = Inr (detect_spec [[Num 0.2, Num 0.3, Num 0.1], [Num 0.4, Num 0.9, Num 0.6], [Num 0.1, Num 0.8, Num 0.7]]
         1 300 (1, 1) 0.5)
   \<and> detect_spec [[Num 0.2, Num 0.3, Num 0.1], [Num 0.4, Num 0.9, Num 0.6], [Num 0.1, Num 0.8, Num 0.7]]
         1 300 (1, 1) 0.5 = [\<lparr>time = 1, freq = 1, amplitude = Num 0.9\<rparr>]"
proof
  show "findPeaks [[Num 0.2, Num 0.3, Num 0.1], [Num 0.4, Num 0.9, Num 0.6], [Num 0.1, Num 0.8, Num 0.7]]
       1 300 (1, 1) 0.5
     = Inr (detect_spec [[Num 0.2, Num 0.3, Num 0.1], [Num 0.4, Num 0.9, Num 0.6], [Num 0.1, Num 0.8, Num 0.7]]
         1 300 (1, 1) 0.5)"
    by (rule findPeaks_refines_detect_spec) simp
  show "detect_spec [[Num 0.2, Num 0.3, Num 0.1], [Num 0.4, Num 0.9, Num 0.6], [Num 0.1, Num 0.8, Num 0.7]]
         1 300 (1, 1) 0.5 = [\<lparr>time = 1, freq = 1, amplitude = Num 0.9\<rparr>]"
    by code_simp
qed

text \<open>
  C1, amended. Let the time radius be at least zero. For a position \<open>(t, f)\<close> all of whose
  neighbours are cells that hold a number, the triple \<open>(t, f, a)\<close> is returned if and only
  if \<open>(t, f)\<close> lies in the scan region, \<open>a\<close> is the value of the cell and exceeds the
  threshold, and every neighbour is strictly less than \<open>a\<close>. And two cells with the same
  value, one inside the neighbourhood of the other (for adjacent cells: a radius of at
  least one along the axis on which they are adjacent), give a landmark for neither.
\<close>
theorem findPeaks_iff_strict_local_maximum:
  assumes "0 \<le> timeN"
  shows "((\<forall>dt df. inWindow timeN freqN dt df \<longrightarrow> cell sp (t + dt) (f + df) \<noteq> NaN) \<longrightarrow>
        (\<lparr>time = t, freq = f, amplitude = a\<rparr>
            \<in> returned (findPeaks sp minFreq maxFreq (timeN, freqN) threshold) \<longleftrightarrow>
           inScan sp minFreq maxFreq timeN freqN t f \<and> a = cell sp t f \<and>
           js_gt a (Num threshold) \<and>
           (\<forall>dt df. inWindow timeN freqN dt df \<longrightarrow> js_gt a (cell sp (t + dt) (f + df))))) \<and>
     (\<forall>dt df. inWindow timeN freqN dt df \<and> cell sp (t + dt) (f + df) = cell sp t f \<longrightarrow>
        (\<forall>b. \<lparr>time = t, freq = f, amplitude = b\<rparr>
               \<notin> returned (findPeaks sp minFreq maxFreq (timeN, freqN) threshold) \<and>
             \<lparr>time = t + dt, freq = f + df, amplitude = b\<rparr>
               \<notin> returned (findPeaks sp minFreq maxFreq (timeN, freqN) threshold)))"
proof (intro conjI)
  let ?ps = "detect_spec sp minFreq maxFreq (timeN, freqN) threshold"
  note ret = returned_findPeaks[OF assms]
  show "(\<forall>dt df. inWindow timeN freqN dt df \<longrightarrow> cell sp (t + dt) (f + df) \<noteq> NaN) \<longrightarrow>
        (\<lparr>time = t, freq = f, amplitude = a\<rparr>
            \<in> returned (findPeaks sp minFreq maxFreq (timeN, freqN) threshold) \<longleftrightarrow>
           inScan sp minFreq maxFreq timeN freqN t f \<and> a = cell sp t f \<and>
           js_gt a (Num threshold) \<and>
           (\<forall>dt df. inWindow timeN freqN dt df \<longrightarrow> js_gt a (cell sp (t + dt) (f + df))))"
  proof
    assume full: "\<forall>dt df. inWindow timeN freqN dt df \<longrightarrow> cell sp (t + dt) (f + df) \<noteq> NaN"
    have "js_gt a (Num threshold) \<Longrightarrow> a = cell sp t f \<Longrightarrow>
        noNeighborDisqualifies sp timeN freqN t f \<longleftrightarrow>
        (\<forall>dt df. inWindow timeN freqN dt df \<longrightarrow> js_gt a (cell sp (t + dt) (f + df)))"
    proof -
      assume g: "js_gt a (Num threshold)" and c: "a = cell sp t f"
      from g obtain x where x: "a = Num x" by (auto simp: js_gt_iff)
      show ?thesis
        unfolding noNeighborDisqualifies_iff c[symmetric] x
        using full by (simp add: not_js_ge_iff)
    qed
    then show "\<lparr>time = t, freq = f, amplitude = a\<rparr>
            \<in> returned (findPeaks sp minFreq maxFreq (timeN, freqN) threshold) \<longleftrightarrow>
           inScan sp minFreq maxFreq timeN freqN t f \<and> a = cell sp t f \<and>
           js_gt a (Num threshold) \<and>
           (\<forall>dt df. inWindow timeN freqN dt df \<longrightarrow> js_gt a (cell sp (t + dt) (f + df)))"
      unfolding ret mem_detect_spec qualifies_def by auto
  qed
  show "\<forall>dt df. inWindow timeN freqN dt df \<and> cell sp (t + dt) (f + df) = cell sp t f \<longrightarrow>
        (\<forall>b. \<lparr>time = t, freq = f, amplitude = b\<rparr>
               \<notin> returned (findPeaks sp minFreq maxFreq (timeN, freqN) threshold) \<and>
             \<lparr>time = t + dt, freq = f + df, amplitude = b\<rparr>
               \<notin> returned (findPeaks sp minFreq maxFreq (timeN, freqN) threshold))"
    unfolding ret mem_detect_spec using qualifies_symmetric_tie[of timeN freqN _ _ sp t f threshold]
    by auto
qed

theorem findPeaks_iff_strict_local_maximum_witness:
  "\<lparr>time = 1, freq = 1, amplitude = Num 0.9\<rparr> \<in> returned (findPeaks
      [[Num 0.2, Num 0.3, Num 0.1], [Num 0.4, Num 0.9, Num 0.6], [Num 0.1, Num 0.8, Num 0.7]]
       1 300 (1, 1) 0.5)
   \<and> \<lparr>time = 1, freq = 1, amplitude = Num 0.9\<rparr> \<notin> returned (findPeaks
      [[Num 0.2, Num 0.3, Num 0.1], [Num 0.4, Num 0.9, Num 0.9], [Num 0.1, Num 0.8, Num 0.7]]
       1 300 (1, 1) 0.5)
   \<and> \<lparr>time = 1, freq = 2, amplitude = Num 0.9\<rparr> \<notin> returned (findPeaks
      [[Num 0.2, Num 0.3, Num 0.1], [Num 0.4, Num 0.9, Num 0.9], [Num 0.1, Num 0.8, Num 0.7]]
       1 300 (1, 1) 0.5)"
proof -
  let ?A = "[[Num 0.2, Num 0.3, Num 0.1], [Num 0.4, Num 0.9, Num 0.6], [Num 0.1, Num 0.8, Num 0.7]]"
  let ?B = "[[Num 0.2, Num 0.3, Num 0.1], [Num 0.4, Num 0.9, Num 0.9], [Num 0.1, Num 0.8, Num 0.7]]"
  have tn: "(0::int) \<le> 1" by simp
  have full: "\<forall>dt df. inWindow 1 1 dt df \<longrightarrow> cell ?A (1 + dt) (1 + df) \<noteq> NaN"
    unfolding inWindow_all_iff by code_simp
  have rhs: "inScan ?A 1 300 1 1 1 1 \<and> Num 0.9 = cell ?A 1 1 \<and> js_gt (Num 0.9) (Num 0.5) \<and>
      (\<forall>dt df. inWindow 1 1 dt df \<longrightarrow> js_gt (Num 0.9) (cell ?A (1 + dt) (1 + df)))"
    unfolding inWindow_all_iff by code_simp
  have tie: "inWindow 1 1 0 1 \<and> cell ?B (1 + 0) (1 + 1) = cell ?B 1 1"
    by code_simp
  from findPeaks_iff_strict_local_maximum[OF tn, of 1 ?A 1 1 "Num 0.9" 1 300 "0.5"] full rhs
  have 1: "\<lparr>time = 1, freq = 1, amplitude = Num 0.9\<rparr> \<in> returned (findPeaks ?A 1 300 (1, 1) 0.5)"
    by blast
  from findPeaks_iff_strict_local_maximum[OF tn, of 1 ?B 1 1 "Num 0.9" 1 300 "0.5"] tie
  have 2: "\<forall>b. \<lparr>time = 1, freq = 1, amplitude = b\<rparr> \<notin> returned (findPeaks ?B 1 300 (1, 1) 0.5) \<and>
             \<lparr>time = 1 + 0, freq = 1 + 1, amplitude = b\<rparr> \<notin> returned (findPeaks ?B 1 300 (1, 1) 0.5)"
    by blast
  from 1 2 show ?thesis by simp
qed

text \<open>
  The claim as first stated fails twice. A neighbour that does not exist (here the one at
  frequency \<open>-1\<close>) has no value below the amplitude, and the candidate is returned all
  the same; and with a frequency radius of zero two equal cells side by side are both
  returned.
\<close>

theorem findPeaks_iff_counterexample:
  "findPeaks [[Num 0.1, Num 0.1, Num 0.1], [Num 0.9, Num 0.1, Num 0.1], [Num 0.1, Num 0.1, Num 0.1]]
       0 300 (1, 1) 0.5 = Inr [\<lparr>time = 1, freq = 0, amplitude = Num 0.9\<rparr>]
   \<and> inWindow 1 1 0 (- 1)
   \<and> cell [[Num 0.1, Num 0.1, Num 0.1], [Num 0.9, Num 0.1, Num 0.1], [Num 0.1, Num 0.1, Num 0.1]]
         (1 + 0) (0 + - 1) = NaN
   \<and> findPeaks [[Num 0.9, Num 0.9]] 0 300 (0, 0) 0.5
       = Inr [\<lparr>time = 0, freq = 0, amplitude = Num 0.9\<rparr>, \<lparr>time = 0, freq = 1, amplitude = Num 0.9\<rparr>]"
  by code_simp

text \<open>
  C4. The claim: every landmark lies in the scan region and never at a position that
  lacks a full neighbourhood. The first half holds (\<open>findPeaks_in_scan\<close>). The second
  does not: the scan starts at \<open>minFreq\<close> even when that is below the frequency radius,
  so with \<open>minFreq = 0\<close> and a radius of one the detector returns a landmark at
  frequency \<open>0\<close>, whose neighbours at frequency \<open>-1\<close> do not exist.
\<close>

theorem findPeaks_landmark_without_full_neighborhood:
  "findPeaks [[Num 0.2, Num 0.1, Num 0.1, Num 0.1], [Num 0.8, Num 0.3, Num 0.1, Num 0.1],
              [Num 0.2, Num 0.1, Num 0.1, Num 0.1]]
       0 300 (1, 1) 0.5 = Inr [\<lparr>time = 1, freq = 0, amplitude = Num 0.8\<rparr>]
   \<and> at_bin [Num 0.8, Num 0.3, Num 0.1, Num 0.1] (0 - 1) = NaN"
  by code_simp

text \<open>
  C5, amended. Let the time radius be at least zero, and let exactly one cell exceed the
  threshold and strictly exceed every other value of its neighbourhood (\<open>qualifies\<close>).
  If that cell lies in the scan region, the detector returns exactly one landmark, with
  the coordinates and the amplitude of that cell; otherwise it returns none.
\<close>

theorem findPeaks_single_spike:
  assumes tn: "0 \<le> timeN"
    and spike: "qualifies sp timeN freqN threshold t f"
    and only: "\<forall>t' f'. qualifies sp timeN freqN threshold t' f' \<longrightarrow> (t', f') = (t, f)"
  shows "findPeaks sp minFreq maxFreq (timeN, freqN) threshold =
           Inr (if inScan sp minFreq maxFreq timeN freqN t f
                then [\<lparr>time = t, freq = f, amplitude = cell sp t f\<rparr>] else [])"
proof (cases "inScan sp minFreq maxFreq timeN freqN t f")
  case True
  have "filter (\<lambda>(t, f). qualifies sp timeN freqN threshold t f)
          (scanRegion sp minFreq maxFreq timeN freqN) = [(t, f)]"
  proof (rule filter_single)
    show "distinct (scanRegion sp minFreq maxFreq timeN freqN)" by (rule distinct_scanRegion)
    show "(t, f) \<in> set (scanRegion sp minFreq maxFreq timeN freqN)"
      using True by (simp add: set_scanRegion)
    show "case (t, f) of (t, f) \<Rightarrow> qualifies sp timeN freqN threshold t f"
      using spike by simp
    show "\<forall>y \<in> set (scanRegion sp minFreq maxFreq timeN freqN).
        (case y of (t, f) \<Rightarrow> qualifies sp timeN freqN threshold t f) \<longrightarrow> y = (t, f)"
      using only by auto
  qed
  with True show ?thesis
    by (simp add: findPeaks_eq[OF tn] detect_spec_def mkPeak_def)
next
  case False
  have "filter (\<lambda>(t, f). qualifies sp timeN freqN threshold t f)
          (scanRegion sp minFreq maxFreq timeN freqN) = []"
    unfolding filter_empty_conv
  proof (intro ballI)
    fix y
    assume y: "y \<in> set (scanRegion sp minFreq maxFreq timeN freqN)"
    obtain t' f' where tf: "y = (t', f')" by (cases y)
    from y tf False have "(t', f') \<noteq> (t, f)" by (auto simp: set_scanRegion)
    with only have "\<not> qualifies sp timeN freqN threshold t' f'" by blast
    then show "\<not> (case y of (t, f) \<Rightarrow> qualifies sp timeN freqN threshold t f)"
      by (simp add: tf)
  qed
  with False show ?thesis
    by (simp add: findPeaks_eq[OF tn] detect_spec_def)
qed

theorem findPeaks_single_spike_witness:
  "findPeaks [[Num 0.2, Num 0.3, Num 0.1], [Num 0.4, Num 0.9, Num 0.6], [Num 0.1, Num 0.8, Num 0.7]]
       1 300 (1, 1) 0.5 = Inr [\<lparr>time = 1, freq = 1, amplitude = Num 0.9\<rparr>]"
proof -
  let ?A = "[[Num 0.2, Num 0.3, Num 0.1], [Num 0.4, Num 0.9, Num 0.6], [Num 0.1, Num 0.8, Num 0.7]]"
  have tn: "(0::int) \<le> 1" by simp
  have spike: "qualifies ?A 1 1 0.5 1 1" by code_simp
  have only: "\<forall>t' f'. qualifies ?A 1 1 0.5 t' f' \<longrightarrow> (t', f') = (1, 1)"
    unfolding only_qualifies_iff by code_simp
  have scan: "inScan ?A 1 300 1 1 1 1" by code_simp
  have c: "cell ?A 1 1 = Num 0.9" by code_simp
  show ?thesis
    using findPeaks_single_spike[OF tn spike only, of 1 300] scan c by simp
qed

text \<open>
  The claim as first stated fails for a spike outside the scan region: a matrix of one
  cell has its only cell dominant, and the default parameters scan nothing.
\<close>

theorem single_spike_counterexample:
  "qualifies [[Num 0.9]] 3 3 0.5 0 0 \<and> findPeaks [[Num 0.9]] 30 300 (3, 3) 0.5 = Inr []"
  by code_simp

text \<open>
  C10. For every spectrogram, ragged or not, and every neighbourhood (the time radius not
  negative), the detector returns without a fault, and a neighbour that does not exist
  (outside its row, or at a frequency below zero) does not disqualify: the landmarks are
  the cells of the scan region that exceed the threshold and whose existing neighbours
  are all strictly smaller. So a candidate next to a shorter row can qualify.
\<close>

theorem findPeaks_missing_neighbor_not_disqualifying:
  assumes "0 \<le> timeN"
  shows "\<exists>ps. findPeaks sp minFreq maxFreq (timeN, freqN) threshold = Inr ps \<and>
     (\<forall>p. p \<in> set ps \<longleftrightarrow>
        inScan sp minFreq maxFreq timeN freqN (time p) (freq p) \<and>
        (\<exists>a. amplitude p = Num a \<and> cell sp (time p) (freq p) = Num a \<and> threshold < a \<and>
           (\<forall>dt df. inWindow timeN freqN dt df \<longrightarrow>
              (case cell sp (time p + dt) (freq p + df) of NaN \<Rightarrow> True | Num v \<Rightarrow> v < a))))"
proof (intro exI conjI allI)
  show "findPeaks sp minFreq maxFreq (timeN, freqN) threshold =
      Inr (detect_spec sp minFreq maxFreq (timeN, freqN) threshold)"
    using assms by (rule findPeaks_eq)
  fix p :: peak
  have nd: "\<not> js_ge n (Num a) \<longleftrightarrow> (case n of NaN \<Rightarrow> True | Num v \<Rightarrow> v < a)" for n a
    by (cases n) auto
  have "qualifies sp timeN freqN threshold (time p) (freq p) \<longleftrightarrow>
      (\<exists>a. cell sp (time p) (freq p) = Num a \<and> threshold < a \<and>
           (\<forall>dt df. inWindow timeN freqN dt df \<longrightarrow>
              (case cell sp (time p + dt) (freq p + df) of NaN \<Rightarrow> True | Num v \<Rightarrow> v < a)))"
    unfolding qualifies_def noNeighborDisqualifies_iff
    by (cases "cell sp (time p) (freq p)") (simp_all add: nd)
  then show "p \<in> set (detect_spec sp minFreq maxFreq (timeN, freqN) threshold) \<longleftrightarrow>
        inScan sp minFreq maxFreq timeN freqN (time p) (freq p) \<and>
        (\<exists>a. amplitude p = Num a \<and> cell sp (time p) (freq p) = Num a \<and> threshold < a \<and>
           (\<forall>dt df. inWindow timeN freqN dt df \<longrightarrow>
              (case cell sp (time p + dt) (freq p + df) of NaN \<Rightarrow> True | Num v \<Rightarrow> v < a)))"
    unfolding mem_detect_spec by auto
qed

theorem findPeaks_missing_neighbor_not_disqualifying_witness:
  "(\<exists>ps. findPeaks [[Num 0.1, Num 0.1], [Num 0.1, Num 0.9, Num 0.1], [Num 0.1, Num 0.1, Num 0.1]]
            1 300 (1, 1) 0.5 = Inr ps
        \<and> \<lparr>time = 1, freq = 1, amplitude = Num 0.9\<rparr> \<in> set ps)
   \<and> inWindow 1 1 (- 1) 1
   \<and> cell [[Num 0.1, Num 0.1], [Num 0.1, Num 0.9, Num 0.1], [Num 0.1, Num 0.1, Num 0.1]]
        (1 + - 1) (1 + 1) = NaN"
proof -
  let ?R = "[[Num 0.1, Num 0.1], [Num 0.1, Num 0.9, Num 0.1], [Num 0.1, Num 0.1, Num 0.1]]"
  let ?p = "\<lparr>time = 1, freq = 1, amplitude = Num 0.9\<rparr>"
  have tn: "(0::int) \<le> 1" by simp
  from findPeaks_missing_neighbor_not_disqualifying[OF tn, of ?R 1 300 1 "0.5"]
  obtain ps where ps: "findPeaks ?R 1 300 (1, 1) 0.5 = Inr ps"
    and iff: "\<And>p. p \<in> set ps \<longleftrightarrow>
        inScan ?R 1 300 1 1 (time p) (freq p) \<and>
        (\<exists>a. amplitude p = Num a \<and> cell ?R (time p) (freq p) = Num a \<and> 0.5 < a \<and>
           (\<forall>dt df. inWindow 1 1 dt df \<longrightarrow>
              (case cell ?R (time p + dt) (freq p + df) of NaN \<Rightarrow> True | Num v \<Rightarrow> v < a)))"
    by blast
  have scan: "inScan ?R 1 300 1 1 1 1" by code_simp
  have c: "cell ?R 1 1 = Num 0.9" by code_simp
  have nb: "\<forall>dt df. inWindow 1 1 dt df \<longrightarrow>
              (case cell ?R (1 + dt) (1 + df) of NaN \<Rightarrow> True | Num v \<Rightarrow> v < 0.9)"
    unfolding inWindow_all_iff by code_simp
  have ex: "\<exists>a. amplitude ?p = Num a \<and> cell ?R (time ?p) (freq ?p) = Num a \<and> 0.5 < a \<and>
           (\<forall>dt df. inWindow 1 1 dt df \<longrightarrow>
              (case cell ?R (time ?p + dt) (freq ?p + df) of NaN \<Rightarrow> True | Num v \<Rightarrow> v < a))"
    by (rule exI[of _ "0.9"]) (use c nb in simp)
  have "?p \<in> set ps"
    unfolding iff by (rule conjI) (use scan ex in simp_all)
  moreover have "inWindow 1 1 (- 1) 1 \<and> cell ?R (1 + - 1) (1 + 1) = NaN" by code_simp
  ultimately show ?thesis using ps by blast
qed

section \<open>The frame loop, computed\<close>

lemma frame_ok:
  assumes "\<forall>x. length x = nat windowSize \<longrightarrow> (\<exists>y. realTransform x = Inr y)"
  shows "\<exists>row. frame realTransform audioData window windowSize i = Inr row"
proof -
  let ?wd = "map (\<lambda>j. js_mul (at_bin audioData (i + int j)) (at_bin window (int j)))
               [0..<nat windowSize]"
  have "length ?wd = nat windowSize" by simp
  with assms obtain y where "realTransform ?wd = Inr y" by blast
  then show ?thesis by (simp add: frame_def)
qed

lemma starts_stop: "\<not> i < n \<Longrightarrow> starts n h i = {}"
  by (auto simp: starts_def)

lemma finite_starts: "finite (starts n h i)"
proof (rule finite_subset)
  show "starts n h i \<subseteq> {i..<n}" by (auto simp: starts_def)
  show "finite {i..<n}" by simp
qed

lemma starts_step:
  assumes h: "0 < h" and lt: "i < n"
  shows "starts n h i = insert i (starts n h (i + h))" and "i \<notin> starts n h (i + h)"
proof -
  show "i \<notin> starts n h (i + h)" using h by (simp add: starts_def)
  show "starts n h i = insert i (starts n h (i + h))"
  proof (intro set_eqI iffI)
    fix s
    assume s: "s \<in> starts n h i"
    show "s \<in> insert i (starts n h (i + h))"
    proof (cases "s = i")
      case True
      then show ?thesis by simp
    next
      case False
      with s have pos: "0 < s - i" and d: "h dvd (s - i)" and sn: "s < n"
        by (simp_all add: starts_def)
      from d pos have "h \<le> s - i" by (rule zdvd_imp_le)
      moreover have "h dvd (s - (i + h))"
      proof -
        have "h dvd (s - i) - h" using d by (rule dvd_diff) simp
        then show ?thesis by (simp add: algebra_simps)
      qed
      ultimately show ?thesis using sn by (simp add: starts_def)
    qed
  next
    fix s
    assume "s \<in> insert i (starts n h (i + h))"
    then consider "s = i" | "s \<in> starts n h (i + h)" by blast
    then show "s \<in> starts n h i"
    proof cases
      case 1
      then show ?thesis using lt by (simp add: starts_def)
    next
      case 2
      then have le: "i + h \<le> s" and sn: "s < n" and d: "h dvd (s - (i + h))"
        by (simp_all add: starts_def)
      have "h dvd (s - (i + h)) + h" using d by (rule dvd_add) simp
      then have "h dvd (s - i)" by (simp add: algebra_simps)
      then show ?thesis using le sn h by (simp add: starts_def)
    qed
  qed
qed

lemma frameLoop_stop:
  "\<not> i < int (length audioData) - windowSize \<Longrightarrow>
   frameLoop realTransform audioData window windowSize hopSize i acc = Some (Inr acc)"
  by (subst frameLoop.simps) simp

lemma frameLoop_step:
  "i < int (length audioData) - windowSize \<Longrightarrow>
   frame realTransform audioData window windowSize i = Inr row \<Longrightarrow>
   frameLoop realTransform audioData window windowSize hopSize i acc =
   frameLoop realTransform audioData window windowSize hopSize (i + hopSize) (acc @ [row])"
  by (subst frameLoop.simps) simp

lemma frameLoop_count:
  assumes h: "0 < hopSize"
    and k: "\<forall>x. length x = nat windowSize \<longrightarrow> (\<exists>y. realTransform x = Inr y)"
  shows "\<exists>sp. frameLoop realTransform audioData window windowSize hopSize i acc = Some (Inr sp) \<and>
     length sp = length acc + card (starts (int (length audioData) - windowSize) hopSize i)"
proof (induction "nat (int (length audioData) - windowSize - i)" arbitrary: i acc rule: less_induct)
  case less
  let ?n = "int (length audioData) - windowSize"
  show ?case
  proof (cases "i < ?n")
    case False
    then show ?thesis by (simp add: frameLoop_stop starts_stop)
  next
    case True
    from frame_ok[OF k] obtain row
      where row: "frame realTransform audioData window windowSize i = Inr row" by blast
    have "nat (?n - (i + hopSize)) < nat (?n - i)" using True h by linarith
    from less[OF this, of "acc @ [row]"] obtain sp
      where sp: "frameLoop realTransform audioData window windowSize hopSize (i + hopSize)
                   (acc @ [row]) = Some (Inr sp)"
        and len: "length sp = length (acc @ [row]) + card (starts ?n hopSize (i + hopSize))"
      by blast
    have "card (starts ?n hopSize i) = Suc (card (starts ?n hopSize (i + hopSize)))"
      using starts_step[OF h True] by (simp add: finite_starts)
    with sp len show ?thesis
      by (simp add: frameLoop_step[OF True row])
  qed
qed

lemma starts_zero: "starts n h 0 = {start. 0 \<le> start \<and> start < n \<and> h dvd start}"
  by (simp add: starts_def)

text \<open>
  With a hop size of zero or less the counter never passes the bound: a call that enters
  the loop does not return (unless the transform throws).
\<close>

lemma frameLoop_never_returns:
  assumes h: "hopSize \<le> 0"
    and k: "\<forall>x. \<exists>y. realTransform x = Inr y"
    and lt: "i < int (length audioData) - windowSize"
  shows "frameLoop realTransform audioData window windowSize hopSize i acc = None"
proof (rule ccontr)
  assume "frameLoop realTransform audioData window windowSize hopSize i acc \<noteq> None"
  then obtain r where r: "frameLoop realTransform audioData window windowSize hopSize i acc = Some r"
    by auto
  have "\<not> (hopSize \<le> 0 \<and> (\<forall>x. \<exists>y. realTransform x = Inr y) \<and>
            i < int (length audioData) - windowSize)"
  proof (rule frameLoop.raw_induct[where P = "\<lambda>K a w ws hs j sp res.
            \<not> (hs \<le> 0 \<and> (\<forall>x. \<exists>y. K x = Inr y) \<and> j < int (length a) - ws)", OF _ r])
    fix f :: "transform \<Rightarrow> number list \<Rightarrow> number list \<Rightarrow> int \<Rightarrow> int \<Rightarrow> int \<Rightarrow> number list list \<Rightarrow>
        (error + number list list) option"
    fix K a w ws hs j sp res
    assume IH: "\<And>K a w ws hs j sp res. f K a w ws hs j sp = Some res \<Longrightarrow>
        \<not> (hs \<le> 0 \<and> (\<forall>x. \<exists>y. K x = Inr y) \<and> j < int (length a) - ws)"
      and body: "(if j < int (length a) - ws
          then case frame K a w ws j of Inl e \<Rightarrow> Some (Inl e)
            | Inr magnitudes \<Rightarrow> f K a w ws hs (j + hs) (sp @ [magnitudes])
          else Some (Inr sp)) = Some res"
    show "\<not> (hs \<le> 0 \<and> (\<forall>x. \<exists>y. K x = Inr y) \<and> j < int (length a) - ws)"
    proof
      assume c: "hs \<le> 0 \<and> (\<forall>x. \<exists>y. K x = Inr y) \<and> j < int (length a) - ws"
      then obtain row where row: "frame K a w ws j = Inr row"
        using frame_ok[of ws K a w j] by blast
      from body c row have "f K a w ws hs (j + hs) (sp @ [row]) = Some res" by simp
      from IH[OF this] c show False by simp
    qed
  qed
  with h k lt show False by simp
qed




text \<open>Every row that the loop adds has \<open>windowSize div 2\<close> magnitudes.\<close>

lemma frame_length:
  "frame realTransform audioData window windowSize i = Inr row \<Longrightarrow>
   length row = nat (windowSize div 2)"
  by (auto simp: frame_def Let_def split: sum.splits)

lemma frameLoop_rows:
  assumes r: "frameLoop realTransform audioData window windowSize hopSize i acc = Some (Inr sp)"
  shows "\<forall>row \<in> set sp. row \<in> set acc \<or> length row = nat (windowSize div 2)"
proof -
  have "\<forall>sp'. (Inr sp :: error + number list list) = Inr sp' \<longrightarrow>
      (\<forall>row \<in> set sp'. row \<in> set acc \<or> length row = nat (windowSize div 2))"
  proof (rule frameLoop.raw_induct[where P = "\<lambda>K a w ws hs j acc res.
            \<forall>sp'. res = Inr sp' \<longrightarrow>
              (\<forall>row \<in> set sp'. row \<in> set acc \<or> length row = nat (ws div 2))", OF _ r])
    fix f :: "transform \<Rightarrow> number list \<Rightarrow> number list \<Rightarrow> int \<Rightarrow> int \<Rightarrow> int \<Rightarrow> number list list \<Rightarrow>
        (error + number list list) option"
    fix K a w ws hs j acc res
    assume IH: "\<And>K a w ws hs j acc res. f K a w ws hs j acc = Some res \<Longrightarrow>
        \<forall>sp'. res = Inr sp' \<longrightarrow>
              (\<forall>row \<in> set sp'. row \<in> set acc \<or> length row = nat (ws div 2))"
      and body: "(if j < int (length a) - ws
          then case frame K a w ws j of Inl e \<Rightarrow> Some (Inl e)
            | Inr magnitudes \<Rightarrow> f K a w ws hs (j + hs) (acc @ [magnitudes])
          else Some (Inr acc)) = Some res"
    show "\<forall>sp'. res = Inr sp' \<longrightarrow>
              (\<forall>row \<in> set sp'. row \<in> set acc \<or> length row = nat (ws div 2))"
    proof (intro allI impI)
      fix sp'
      assume res: "res = Inr sp'"
      show "\<forall>row \<in> set sp'. row \<in> set acc \<or> length row = nat (ws div 2)"
      proof (cases "j < int (length a) - ws")
        case False
        with body res show ?thesis by simp
      next
        case True
        show ?thesis
        proof (cases "frame K a w ws j")
          case (Inl e)
          with body True res show ?thesis by simp
        next
          case (Inr m)
          with body True have "f K a w ws hs (j + hs) (acc @ [m]) = Some res" by simp
          from IH[OF this] res
          have "\<forall>row \<in> set sp'. row \<in> set (acc @ [m]) \<or> length row = nat (ws div 2)"
            by blast
          moreover have "length m = nat (ws div 2)" using Inr by (rule frame_length)
          ultimately show ?thesis by auto
        qed
      qed
    qed
  qed
  then show ?thesis by blast
qed

section \<open>The claims about the builder\<close>

text \<open>
  C2. Let the transform accept the window size, and the window size be at least zero (a
  negative one is a RangeError). For a positive hop size and a transform that succeeds
  on frames of the window size, the spectrogram has exactly as many rows as there are
  integers \<open>start\<close> with \<open>0 \<le> start < L - W\<close> in steps of the hop size, so a frame that
  would start at exactly \<open>L - W\<close> is not there; and whenever \<open>L \<le> W\<close> the result is
  the empty spectrogram, not an error, for every hop size.
\<close>
theorem createSpectogram_frame_count:
  assumes fft: "FFT windowSize = Inr fft" and w: "0 \<le> windowSize"
  shows "(0 < hopSize \<and> (\<forall>x. length x = nat windowSize \<longrightarrow> (\<exists>y. fft x = Inr y)) \<longrightarrow>
          (\<exists>sp. createSpectogram FFT audioData sampleRate windowSize hopSize = Some (Inr sp) \<and>
             length sp = card {start. 0 \<le> start \<and> start < int (length audioData) - windowSize \<and>
                                 hopSize dvd start})) \<and>
         (int (length audioData) \<le> windowSize \<longrightarrow>
            createSpectogram FFT audioData sampleRate windowSize hopSize = Some (Inr []))"
proof (intro conjI impI)
  have cs: "createSpectogram FFT audioData sampleRate windowSize hopSize =
      frameLoop fft audioData (hammingWindow windowSize) windowSize hopSize 0 []"
    using fft w by (simp add: createSpectogram_def float32Array_def)
  {
    assume "0 < hopSize \<and> (\<forall>x. length x = nat windowSize \<longrightarrow> (\<exists>y. fft x = Inr y))"
    then have h: "0 < hopSize" and k: "\<forall>x. length x = nat windowSize \<longrightarrow> (\<exists>y. fft x = Inr y)"
      by simp_all
    from frameLoop_count[OF h k, of audioData "hammingWindow windowSize" 0 "[]"]
    show "\<exists>sp. createSpectogram FFT audioData sampleRate windowSize hopSize = Some (Inr sp) \<and>
             length sp = card {start. 0 \<le> start \<and> start < int (length audioData) - windowSize \<and>
                                 hopSize dvd start}"
      by (simp add: cs starts_zero)
  }
  {
    assume "int (length audioData) \<le> windowSize"
    then show "createSpectogram FFT audioData sampleRate windowSize hopSize = Some (Inr [])"
      by (simp add: cs frameLoop_stop)
  }
qed

theorem createSpectogram_frame_count_witness:
  "(\<exists>sp. createSpectogram (\<lambda>w. Inr (\<lambda>x. Inr (x @ x)))
            [Num 0, Num 0.5, Num 1, Num 0.5, Num 0, Num (- 0.5), Num (- 1), Num (- 0.5)]
            44100 4 2 = Some (Inr sp) \<and> length sp = 2)
   \<and> createSpectogram (\<lambda>w. Inr (\<lambda>x. Inr (x @ x))) [Num 0, Num 0.5, Num 1, Num 0.5] 44100 4 2
       = Some (Inr [])"
proof -
  let ?F = "\<lambda>w::int. (Inr (\<lambda>x. Inr (x @ x)) :: error + transform)"
  let ?A = "[Num 0, Num 0.5, Num 1, Num 0.5, Num 0, Num (- 0.5), Num (- 1), Num (- 0.5)]"
  have f: "?F 4 = Inr (\<lambda>x. Inr (x @ x))" by simp
  have w: "(0::int) \<le> 4" by simp
  have k: "0 < (2::int) \<and> (\<forall>x::number list. length x = nat 4 \<longrightarrow>
      (\<exists>y. (Inr (x @ x) :: error + number list) = Inr y))" by simp
  have c: "card {start::int. 0 \<le> start \<and> start < int (length ?A) - 4 \<and> 2 dvd start} = 2"
  proof -
    have "{start::int. 0 \<le> start \<and> start < int (length ?A) - 4 \<and> 2 dvd start} = {0, 2}"
      by auto
    then show ?thesis by simp
  qed
  from createSpectogram_frame_count[OF f w, of 2 ?A 44100] k c
  have 1: "\<exists>sp. createSpectogram ?F ?A 44100 4 2 = Some (Inr sp) \<and> length sp = 2"
    by simp
  from createSpectogram_frame_count[OF f w, of 2 "[Num 0, Num 0.5, Num 1, Num 0.5]" 44100]
  have 2: "createSpectogram ?F [Num 0, Num 0.5, Num 1, Num 0.5] 44100 4 2 = Some (Inr [])"
    by simp
  from 1 2 show ?thesis by simp
qed




text \<open>
  C9, amended. For a size of one the window computation has no case of its own: the
  division by zero of the formula is propagated and the only coefficient is \<open>NaN\<close>.
  The window is computed only when the constructor of the transform accepts the size
  (otherwise its error is raised first), and the \<open>NaN\<close> does not reach the result:
  every row of a spectrogram returned for a window size of one is empty.
\<close>

theorem hammingWindow_size_one:
  "hammingWindow 1 = [NaN] \<and>
   (\<forall>e. FFT 1 = Inl e \<longrightarrow>
      createSpectogram FFT audioData sampleRate 1 hopSize = Some (Inl e)) \<and>
   (\<forall>sp. createSpectogram FFT audioData sampleRate 1 hopSize = Some (Inr sp) \<longrightarrow>
      (\<forall>row \<in> set sp. row = []))"
proof (intro conjI)
  show "hammingWindow 1 = [NaN]" by (simp add: hammingWindow_def hammingCoeff_def)
  show "\<forall>e. FFT 1 = Inl e \<longrightarrow>
      createSpectogram FFT audioData sampleRate 1 hopSize = Some (Inl e)"
    by (simp add: createSpectogram_def)
  show "\<forall>sp. createSpectogram FFT audioData sampleRate 1 hopSize = Some (Inr sp) \<longrightarrow>
      (\<forall>row \<in> set sp. row = [])"
  proof (intro allI impI)
    fix sp
    assume c: "createSpectogram FFT audioData sampleRate 1 hopSize = Some (Inr sp)"
    then obtain fft where "frameLoop fft audioData (hammingWindow 1) 1 hopSize 0 [] = Some (Inr sp)"
      by (auto simp: createSpectogram_def float32Array_def split: sum.splits)
    from frameLoop_rows[OF this] show "\<forall>row \<in> set sp. row = []" by simp
  qed
qed

theorem hammingWindow_size_one_witness:
  "createSpectogram (\<lambda>w. Inr (\<lambda>x. Inr (x @ x))) [Num 0.5, Num 1, Num 0.5] 44100 1 1
     = Some (Inr [[], []])
   \<and> hammingWindow 1 = [NaN]"
proof -
  let ?K = "\<lambda>x::number list. (Inr (x @ x) :: error + number list)"
  let ?A = "[Num 0.5, Num 1, Num 0.5]"
  have f0: "frame ?K ?A [NaN] 1 0 = Inr []" and f1: "frame ?K ?A [NaN] 1 (0 + 1) = Inr []"
    by (simp_all add: frame_def)
  have l0: "frameLoop ?K ?A [NaN] 1 1 0 [] = frameLoop ?K ?A [NaN] 1 1 (0 + 1) ([] @ [[]])"
    by (rule frameLoop_step[OF _ f0]) simp
  have l1: "frameLoop ?K ?A [NaN] 1 1 (0 + 1) ([] @ [[]]) =
      frameLoop ?K ?A [NaN] 1 1 (0 + 1 + 1) (([] @ [[]]) @ [[]])"
    by (rule frameLoop_step[OF _ f1]) simp
  have l2: "frameLoop ?K ?A [NaN] 1 1 (0 + 1 + 1) (([] @ [[]]) @ [[]]) = Some (Inr (([] @ [[]]) @ [[]]))"
    by (rule frameLoop_stop) simp
  note h = hammingWindow_size_one[of "\<lambda>w. Inr ?K" ?A 44100 1, THEN conjunct1]
  have "createSpectogram (\<lambda>w. Inr ?K) ?A 44100 1 1 = frameLoop ?K ?A (hammingWindow 1) 1 1 0 []"
    by (simp add: createSpectogram_def float32Array_def)
  then have "createSpectogram (\<lambda>w. Inr ?K) ?A 44100 1 1 = Some (Inr [[], []])"
    unfolding h l0 l1 l2 by simp
  with h show ?thesis by simp
qed

text \<open>
  The claim as first stated fails: the window for a size of one has one coefficient, and
  it is \<open>NaN\<close>, not a defined value such as \<open>1.0\<close>.
\<close>

theorem hammingWindow_size_one_counterexample:
  "length (hammingWindow 1) = 1 \<and> at_bin (hammingWindow 1) 0 = NaN"
  by (simp add: hammingWindow_def hammingCoeff_def at_bin_def)



end
